theory Spec2Isabelle
  imports Main "HOL-Library.AList"
begin

section \<open>Documents of the board collection\<close>

text \<open>
  \<^verbatim>\<open>index.js\<close> keeps every board as one document of the collection
  \<^verbatim>\<open>boards\<close> of the database \<^verbatim>\<open>sketchspaceDB\<close>. A document is an
  ordered list of named fields whose values are BSON values. The request bodies
  arrive through \<^verbatim>\<open>express.json()\<close>; a key that the body does not carry
  destructures to \<^verbatim>\<open>undefined\<close>, which is \<open>None\<close> below.
\<close>

datatype bson =
    BNull
  | BBool bool
  | BNum int
  | BStr string
  | BDate nat
  | BOid nat
  | BArr "bson list"
  | BObj "(string \<times> bson) list"

type_synonym document = "(string \<times> bson) list"
type_synonym collection = "document list"
type_synonym filter = "(string \<times> bson) list"

text \<open>
  The driver serialises a JavaScript \<^verbatim>\<open>undefined\<close> as BSON null
  (its option \<^verbatim>\<open>ignoreUndefined\<close> is off unless the client asks for it, and
  \<^verbatim>\<open>new MongoClient(uri, {serverApi: ...})\<close> does not).
\<close>

fun ser_string :: "string option \<Rightarrow> bson" where
  "ser_string None = BNull"
| "ser_string (Some s) = BStr s"

fun ser_array :: "bson list option \<Rightarrow> bson" where
  "ser_array None = BNull"
| "ser_array (Some es) = BArr es"

datatype error = AddToSetNonArray string

record update_doc =
  op_set :: "(string \<times> bson) list"
  op_setOnInsert :: "(string \<times> bson) list"
  op_addToSet :: "(string \<times> bson) list"

record update_result =
  matchedCount :: nat
  modifiedCount :: nat
  upsertedCount :: nat
  upsertedId :: "bson option"

record delete_result =
  deletedCount :: nat

record db =
  boards :: collection
  next_oid :: nat

section \<open>The document store's primitives\<close>

text \<open>
  Modelled from the spec: the document store itself (the MongoDB driver and
  server behind \<^verbatim>\<open>boardCollection\<close>) is not among the repository's
  sources; only the handlers that call it are. The spec gives its read/write
  contract (sections 4.4 and 6, and the glossary entry on the upsert with
  insert-only fields): an equality filter selects a record, an update sets some
  fields unconditionally and others only when the record is created, a set-add
  adds without duplicates, a delete reports how many records it removed. The
  definitions below follow that contract, operator by operator, for the
  operators the handlers use.
\<close>

text \<open>
  Modelled from the spec: an equality condition \<^verbatim>\<open>{k: v}\<close> of a filter. It
  holds when the field equals \<open>v\<close>, when the field is an array with the
  element \<open>v\<close>, and, for \<open>v\<close> null, when the document has no such field.
\<close>

definition field_matches :: "document \<Rightarrow> string \<Rightarrow> bson \<Rightarrow> bool" where
  "field_matches d k v =
     (case map_of d k of
        None \<Rightarrow> v = BNull
      | Some (BArr xs) \<Rightarrow> BArr xs = v \<or> v \<in> set xs
      | Some x \<Rightarrow> x = v)"

definition matches :: "filter \<Rightarrow> document \<Rightarrow> bool" where
  "matches flt d = list_all (\<lambda>kv. field_matches d (fst kv) (snd kv)) flt"

text \<open>Modelled from the spec: \<^verbatim>\<open>findOne\<close> returns the first matching
  document, or null (\<open>None\<close>).\<close>

definition findOne :: "filter \<Rightarrow> collection \<Rightarrow> document option" where
  "findOne flt c = List.find (matches flt) c"

text \<open>Modelled from the spec: \<^verbatim>\<open>$set\<close> and \<^verbatim>\<open>$setOnInsert\<close> overwrite a
  field in place or add it at the end of the document.\<close>

fun apply_set :: "(string \<times> bson) list \<Rightarrow> document \<Rightarrow> document" where
  "apply_set [] d = d"
| "apply_set ((k, v) # kvs) d = apply_set kvs (AList.update k v d)"

text \<open>Modelled from the spec: \<^verbatim>\<open>$addToSet\<close> appends the value to an array
  field unless the array has it already, creates the array when the field is
  absent, and fails on a field that is not an array.\<close>

fun apply_addToSet :: "(string \<times> bson) list \<Rightarrow> document \<Rightarrow> error + document" where
  "apply_addToSet [] d = Inr d"
| "apply_addToSet ((k, v) # kvs) d =
     (case map_of d k of
        None \<Rightarrow> apply_addToSet kvs (AList.update k (BArr [v]) d)
      | Some (BArr xs) \<Rightarrow>
          (if v \<in> set xs then apply_addToSet kvs d
           else apply_addToSet kvs (AList.update k (BArr (xs @ [v])) d))
      | Some _ \<Rightarrow> Inl (AddToSetNonArray k))"

text \<open>Modelled from the spec: the update of a document that exists leaves the
  insert-only fields alone.\<close>

definition apply_update :: "update_doc \<Rightarrow> document \<Rightarrow> error + document" where
  "apply_update u d = apply_addToSet (op_addToSet u) (apply_set (op_set u) d)"

text \<open>Modelled from the spec: the document an upsert creates carries a fresh
  \<^verbatim>\<open>_id\<close>, the fields of the equality filter, and then the fields of the
  update, the insert-only ones included.\<close>

definition apply_insert :: "nat \<Rightarrow> filter \<Rightarrow> update_doc \<Rightarrow> error + document" where
  "apply_insert oid flt u =
     apply_addToSet (op_addToSet u)
       (apply_set (op_setOnInsert u)
         (apply_set (op_set u) (apply_set flt [(''_id'', BOid oid)])))"

fun replace_first :: "('a \<Rightarrow> bool) \<Rightarrow> 'a \<Rightarrow> 'a list \<Rightarrow> 'a list" where
  "replace_first p y [] = []"
| "replace_first p y (x # xs) = (if p x then y # xs else x # replace_first p y xs)"

fun remove_first :: "('a \<Rightarrow> bool) \<Rightarrow> 'a list \<Rightarrow> 'a list" where
  "remove_first p [] = []"
| "remove_first p (x # xs) = (if p x then xs else x # remove_first p xs)"

definition no_change :: update_result where
  "no_change = \<lparr>matchedCount = 0, modifiedCount = 0, upsertedCount = 0, upsertedId = None\<rparr>"

text \<open>Modelled from the spec: \<^verbatim>\<open>updateOne(filter, update, {upsert})\<close> changes
  the first matching document; when none matches it inserts one if
  \<^verbatim>\<open>upsert\<close> is set and does nothing otherwise. A failing operator
  rejects the call and leaves the store as it was.\<close>

definition updateOne ::
  "filter \<Rightarrow> update_doc \<Rightarrow> bool \<Rightarrow> db \<Rightarrow> error + (update_result \<times> db)" where
  "updateOne flt u upsert s =
     (case findOne flt (boards s) of
        Some d \<Rightarrow>
          (case apply_update u d of
             Inl e \<Rightarrow> Inl e
           | Inr d' \<Rightarrow>
               Inr (\<lparr>matchedCount = 1,
                     modifiedCount = (if d' = d then 0 else 1),
                     upsertedCount = 0,
                     upsertedId = None\<rparr>,
                    s\<lparr>boards := replace_first (matches flt) d' (boards s)\<rparr>))
      | None \<Rightarrow>
          (if upsert then
             (case apply_insert (next_oid s) flt u of
                Inl e \<Rightarrow> Inl e
              | Inr d' \<Rightarrow>
                  Inr (\<lparr>matchedCount = 0, modifiedCount = 0, upsertedCount = 1,
                        upsertedId = Some (BOid (next_oid s))\<rparr>,
                       \<lparr>boards = boards s @ [d'], next_oid = Suc (next_oid s)\<rparr>))
           else Inr (no_change, s)))"

text \<open>Modelled from the spec: \<^verbatim>\<open>deleteOne\<close> removes the first matching
  document and reports how many it removed.\<close>

definition deleteOne :: "filter \<Rightarrow> db \<Rightarrow> delete_result \<times> db" where
  "deleteOne flt s =
     (case findOne flt (boards s) of
        None \<Rightarrow> (\<lparr>deletedCount = 0\<rparr>, s)
      | Some d \<Rightarrow> (\<lparr>deletedCount = 1\<rparr>, s\<lparr>boards := remove_first (matches flt) (boards s)\<rparr>))"

section \<open>The board handlers of index.js\<close>

text \<open>
  The body of a request is typed as the data model has it: the name and the
  identities are strings, the elements are a sequence of values that the server
  moves and never reads. The room identifier of a save, a lookup and a delete is
  the path parameter and is always a string; that of an invite comes from the
  body and may be missing.
\<close>

record save_body =
  name :: "string option"
  elements :: "bson list option"
  userEmail :: "string option"

record invite_body =
  roomId :: "string option"
  inviteeEmail :: "string option"

text \<open>\<^verbatim>\<open>app.get('/board/:roomId')\<close>.\<close>

definition board_get :: "string \<Rightarrow> db \<Rightarrow> document option" where
  "board_get rid s = findOne [(''roomId'', BStr rid)] (boards s)"

text \<open>\<^verbatim>\<open>app.put('/board/save/:roomId')\<close>; \<open>now\<close> is the value of
  \<^verbatim>\<open>new Date()\<close>.\<close>

definition board_save ::
  "nat \<Rightarrow> string \<Rightarrow> save_body \<Rightarrow> db \<Rightarrow> error + (update_result \<times> db)" where
  "board_save now rid body s =
     (let flt = [(''roomId'', BStr rid)];
          upsert = True;
          updateDoc = \<lparr>
            op_set = [(''name'', ser_string (name body)),
                      (''elements'', ser_array (elements body)),
                      (''lastModified'', BDate now)],
            op_setOnInsert = [(''owner'', ser_string (userEmail body)),
                              (''collaborators'', BArr [])],
            op_addToSet = []\<rparr>
      in updateOne flt updateDoc upsert s)"

text \<open>\<^verbatim>\<open>app.post('/board/invite')\<close>: no options, so no upsert.\<close>

definition board_invite :: "invite_body \<Rightarrow> db \<Rightarrow> error + (update_result \<times> db)" where
  "board_invite body s =
     updateOne [(''roomId'', ser_string (roomId body))]
       \<lparr>op_set = [], op_setOnInsert = [],
        op_addToSet = [(''collaborators'', ser_string (inviteeEmail body))]\<rparr>
       False s"

text \<open>\<^verbatim>\<open>app.delete('/board/delete/:roomId')\<close>.\<close>

definition board_delete :: "string \<Rightarrow> db \<Rightarrow> delete_result \<times> db" where
  "board_delete rid s = deleteOne [(''roomId'', BStr rid)] s"

section \<open>Sequences of requests\<close>

text \<open>
  The handlers run one request at a time against the collection. A request that
  the store rejects leaves the collection as it was.
\<close>

datatype request =
    Save nat string save_body
  | Invite invite_body
  | Delete string

fun handle :: "request \<Rightarrow> db \<Rightarrow> db" where
  "handle (Save now rid body) s =
     (case board_save now rid body s of Inl e \<Rightarrow> s | Inr (res, s') \<Rightarrow> s')"
| "handle (Invite body) s =
     (case board_invite body s of Inl e \<Rightarrow> s | Inr (res, s') \<Rightarrow> s')"
| "handle (Delete rid) s = snd (board_delete rid s)"

definition run :: "request list \<Rightarrow> db \<Rightarrow> db" where
  "run reqs s = fold handle reqs s"

definition empty_db :: db where
  "empty_db = \<lparr>boards = [], next_oid = 0\<rparr>"

fun is_save_for :: "string \<Rightarrow> request \<Rightarrow> bool" where
  "is_save_for R (Save now rid body) = (rid = R)"
| "is_save_for R (Invite body) = False"
| "is_save_for R (Delete rid) = False"

definition saved :: "string \<Rightarrow> request list \<Rightarrow> bool" where
  "saved R reqs = list_ex (is_save_for R) reqs"

text \<open>A request names its requester when it is not a save, or is a save whose
  body carries \<^verbatim>\<open>userEmail\<close>.\<close>

fun has_userEmail :: "request \<Rightarrow> bool" where
  "has_userEmail (Save now rid body) = (userEmail body \<noteq> None)"
| "has_userEmail (Invite body) = True"
| "has_userEmail (Delete rid) = True"

text \<open>The field a board is keyed by, and the shape of the collection that the
  handlers maintain: every board has a string \<^verbatim>\<open>roomId\<close>, no two boards
  share one, and \<^verbatim>\<open>collaborators\<close> is an array.\<close>

definition room_of :: "document \<Rightarrow> bson option" where
  "room_of d = map_of d ''roomId''"

definition is_string :: "bson option \<Rightarrow> bool" where
  "is_string v = (case v of Some (BStr r) \<Rightarrow> True | _ \<Rightarrow> False)"

definition is_array :: "bson option \<Rightarrow> bool" where
  "is_array v = (case v of Some (BArr xs) \<Rightarrow> True | _ \<Rightarrow> False)"

definition wf_boards :: "collection \<Rightarrow> bool" where
  "wf_boards c \<longleftrightarrow>
     distinct (map room_of c)
     \<and> list_all (\<lambda>d. is_string (room_of d)) c
     \<and> list_all (\<lambda>d. is_array (map_of d ''collaborators'')) c"

text \<open>A save request accounts for a board when it names the board's room and
  its requester is the board's owner.\<close>

definition created_by :: "request \<Rightarrow> document \<Rightarrow> bool" where
  "created_by q d =
     (case q of
        Save now r body \<Rightarrow>
          room_of d = Some (BStr r) \<and> map_of d ''owner'' = Some (ser_string (userEmail body))
      | Invite body \<Rightarrow> False
      | Delete r \<Rightarrow> False)"

text \<open>A board as the first save of room \<^verbatim>\<open>r1\<close> leaves it, for the examples.\<close>

definition board_r1 :: document where
  "board_r1 = [(''_id'', BOid 0), (''roomId'', BStr ''r1''), (''name'', BStr ''Untitled''),
               (''elements'', BArr []), (''lastModified'', BDate 1),
               (''owner'', BStr ''a@x.com''), (''collaborators'', BArr [])]"

definition db_r1 :: db where
  "db_r1 = \<lparr>boards = [board_r1], next_oid = 1\<rparr>"

text \<open>The same board after \<^verbatim>\<open>c@x.com\<close> has been invited.\<close>

definition db_r1_shared :: db where
  "db_r1_shared =
     \<lparr>boards = [[(''_id'', BOid 0), (''roomId'', BStr ''r1''), (''name'', BStr ''Untitled''),
                  (''elements'', BArr []), (''lastModified'', BDate 1),
                  (''owner'', BStr ''a@x.com''),
                  (''collaborators'', BArr [BStr ''c@x.com''])]],
      next_oid = 1\<rparr>"

section \<open>The real-time session\<close>

text \<open>
  \<^verbatim>\<open>io.on('connection', ...)\<close> registers three handlers on every socket. They
  call the transport library's room primitives (\<^verbatim>\<open>socket.join\<close>,
  \<^verbatim>\<open>socket.to(room).emit\<close>), which are not among the repository's sources.
  A connection is named by its socket id. The state is the membership of every
  room and, for every connection, the events delivered to it so far, oldest
  first.
\<close>

type_synonym sid = string
type_synonym room = string

datatype event =
    ReceiveDrawing "bson option"
  | ReceiveMouse "bson option" "bson option" sid "bson option"

record io_state =
  members :: "room \<Rightarrow> sid set"
  inbox :: "sid \<Rightarrow> event list"

definition empty_io :: io_state where
  "empty_io = \<lparr>members = (\<lambda>R. {}), inbox = (\<lambda>c. [])\<rparr>"

text \<open>Modelled from the spec: the session registry of section 4.1, which the
  transport library provides. \<open>join\<close> adds the connection to the room's
  membership set.\<close>

definition join :: "sid \<Rightarrow> room \<Rightarrow> io_state \<Rightarrow> io_state" where
  "join c R st = st\<lparr>members := (members st)(R := insert c (members st R))\<rparr>"

text \<open>Modelled from the spec: \<open>membersOf\<close> is the current membership of a
  room, empty for a room nobody joined.\<close>

definition membersOf :: "room \<Rightarrow> io_state \<Rightarrow> sid set" where
  "membersOf R st = members st R"

text \<open>Modelled from the spec: \<open>remove\<close> takes the connection out of
  whichever rooms it belongs to.\<close>

definition remove :: "sid \<Rightarrow> io_state \<Rightarrow> io_state" where
  "remove c st = st\<lparr>members := (\<lambda>R. members st R - {c})\<rparr>"

text \<open>Modelled from the spec: the broadcast relay of section 4.2, which the
  transport library provides as \<^verbatim>\<open>socket.to(room).emit\<close>. A reliable
  event reaches every member of the room except the sender.\<close>

definition relay :: "sid \<Rightarrow> room \<Rightarrow> event \<Rightarrow> io_state \<Rightarrow> io_state" where
  "relay s R ev st =
     st\<lparr>inbox := (\<lambda>c. if c \<in> membersOf R st - {s} then inbox st c @ [ev] else inbox st c)\<rparr>"

text \<open>Modelled from the spec: a volatile event reaches those of them whose
  transport is ready to send (\<open>ready\<close>) and is dropped for the others.\<close>

definition relay_volatile ::
  "sid set \<Rightarrow> sid \<Rightarrow> room \<Rightarrow> event \<Rightarrow> io_state \<Rightarrow> io_state" where
  "relay_volatile ready s R ev st =
     st\<lparr>inbox := (\<lambda>c. if c \<in> (membersOf R st - {s}) \<inter> ready then inbox st c @ [ev]
                       else inbox st c)\<rparr>"

text \<open>\<^verbatim>\<open>socket.on('join-room', ...)\<close>.\<close>

definition on_join_room :: "sid \<Rightarrow> room \<Rightarrow> io_state \<Rightarrow> io_state" where
  "on_join_room socket rid st = join socket rid st"

text \<open>\<^verbatim>\<open>socket.on('drawing-update', ...)\<close>; \<open>rid\<close> and \<open>els\<close> are
  \<^verbatim>\<open>data.roomId\<close> and \<^verbatim>\<open>data.elements\<close>.\<close>

definition on_drawing_update :: "sid \<Rightarrow> room \<Rightarrow> bson option \<Rightarrow> io_state \<Rightarrow> io_state" where
  "on_drawing_update socket rid els st = relay socket rid (ReceiveDrawing els) st"

text \<open>\<^verbatim>\<open>socket.on('mouse-move', ...)\<close>.\<close>

definition on_mouse_move ::
  "sid set \<Rightarrow> sid \<Rightarrow> room \<Rightarrow> bson option \<Rightarrow> bson option \<Rightarrow> bson option
     \<Rightarrow> io_state \<Rightarrow> io_state" where
  "on_mouse_move ready socket rid pointer button user st =
     relay_volatile ready socket rid (ReceiveMouse pointer button socket user) st"

text \<open>Modelled from the spec: index.js registers no handler for the end of a
  connection; the transport library removes the connection from the registry
  when its transport closes (section 4.5).\<close>

definition on_disconnect :: "sid \<Rightarrow> io_state \<Rightarrow> io_state" where
  "on_disconnect socket st = remove socket st"

datatype message =
    JoinRoom sid room
  | DrawingUpdate sid room "bson option"
  | MouseMove "sid set" sid room "bson option" "bson option" "bson option"
  | Disconnect sid

fun step :: "message \<Rightarrow> io_state \<Rightarrow> io_state" where
  "step (JoinRoom c R) st = on_join_room c R st"
| "step (DrawingUpdate c R els) st = on_drawing_update c R els st"
| "step (MouseMove ready c R pointer button user) st =
     on_mouse_move ready c R pointer button user st"
| "step (Disconnect c) st = on_disconnect c st"

definition session :: "message list \<Rightarrow> io_state \<Rightarrow> io_state" where
  "session msgs st = fold step msgs st"

fun membership_only :: "message \<Rightarrow> bool" where
  "membership_only (JoinRoom c R) = True"
| "membership_only (Disconnect c) = True"
| "membership_only (DrawingUpdate c R els) = False"
| "membership_only (MouseMove ready c R pointer button user) = False"

text \<open>Room \<^verbatim>\<open>r1\<close> after clients A and B have joined it, for the examples.\<close>

definition room_r1 :: io_state where
  "room_r1 = on_join_room ''B'' ''r1'' (on_join_room ''A'' ''r1'' empty_io)"

section \<open>Facts about the store primitives\<close>

lemma matches_cong:
  assumes "\<forall>k \<in> fst ` set flt. map_of d' k = map_of d k"
  shows "matches flt d' = matches flt d"
  using assms by (induction flt) (auto simp: matches_def field_matches_def)

lemma map_of_apply_set_other:
  "k \<notin> fst ` set kvs \<Longrightarrow> map_of (apply_set kvs d) k = map_of d k"
  by (induction kvs d rule: apply_set.induct) (auto simp: update_conv')

lemma find_replace_first:
  "List.find p xs = Some x \<Longrightarrow> p y \<Longrightarrow> List.find p (replace_first p y xs) = Some y"
  by (induction xs) (auto split: if_splits)

lemma replace_first_split:
  "List.find p xs = Some x \<Longrightarrow>
   \<exists>pre post. xs = pre @ x # post \<and> replace_first p y xs = pre @ y # post
     \<and> list_all (\<lambda>z. \<not> p z) pre"
proof (induction xs)
  case Nil
  then show ?case by simp
next
  case (Cons a xs)
  show ?case
  proof (cases "p a")
    case True
    with Cons.prems have "a = x" by simp
    with True have "a # xs = [] @ x # xs \<and> replace_first p y (a # xs) = [] @ y # xs
      \<and> list_all (\<lambda>z. \<not> p z) []" by simp
    then show ?thesis by blast
  next
    case False
    with Cons.prems have "List.find p xs = Some x" by simp
    from Cons.IH [OF this] obtain pre post where
      "xs = pre @ x # post" "replace_first p y xs = pre @ y # post" "list_all (\<lambda>z. \<not> p z) pre"
      by blast
    with False have "a # xs = (a # pre) @ x # post
      \<and> replace_first p y (a # xs) = (a # pre) @ y # post
      \<and> list_all (\<lambda>z. \<not> p z) (a # pre)" by simp
    then show ?thesis by blast
  qed
qed

lemma replace_first_idem:
  "p y \<Longrightarrow> replace_first p y (replace_first p y xs) = replace_first p y xs"
  by (induction xs) auto

lemma find_snoc_new:
  "List.find p xs = None \<Longrightarrow> p y \<Longrightarrow> List.find p (xs @ [y]) = Some y"
  by (induction xs) (auto split: if_splits)

lemma save_absent:
  assumes "board_get R s = None"
  shows "board_save now R body s =
    Inr (\<lparr>matchedCount = 0, modifiedCount = 0, upsertedCount = 1,
          upsertedId = Some (BOid (next_oid s))\<rparr>,
         \<lparr>boards = boards s @
            [[(''_id'', BOid (next_oid s)), (''roomId'', BStr R),
              (''name'', ser_string (name body)),
              (''elements'', ser_array (elements body)),
              (''lastModified'', BDate now),
              (''owner'', ser_string (userEmail body)),
              (''collaborators'', BArr [])]],
          next_oid = Suc (next_oid s)\<rparr>)"
  using assms
  by (simp add: board_save_def board_get_def updateOne_def apply_insert_def)

lemma save_present:
  assumes "board_get R s = Some d"
  shows "board_save now R body s =
    Inr (\<lparr>matchedCount = 1,
          modifiedCount = (if apply_set [(''name'', ser_string (name body)),
                      (''elements'', ser_array (elements body)),
                      (''lastModified'', BDate now)] d = d then 0 else 1),
          upsertedCount = 0, upsertedId = None\<rparr>,
         s\<lparr>boards := replace_first (matches [(''roomId'', BStr R)])
             (apply_set [(''name'', ser_string (name body)),
                      (''elements'', ser_array (elements body)),
                      (''lastModified'', BDate now)] d) (boards s)\<rparr>)"
  using assms
  by (simp add: board_save_def board_get_def updateOne_def apply_update_def del: apply_set.simps)


lemma matches_after_set:
  assumes "matches flt d" "fst ` set flt \<inter> fst ` set kvs = {}"
  shows "matches flt (apply_set kvs d)"
proof -
  have "\<forall>k \<in> fst ` set flt. map_of (apply_set kvs d) k = map_of d k"
  proof
    fix k assume "k \<in> fst ` set flt"
    with assms(2) have "k \<notin> fst ` set kvs" by blast
    then show "map_of (apply_set kvs d) k = map_of d k"
      by (rule map_of_apply_set_other)
  qed
  from matches_cong [OF this] assms(1) show ?thesis by simp
qed

lemma find_Some_holds: "List.find p xs = Some x \<Longrightarrow> p x"
  by (induction xs) (auto split: if_splits)

lemma save_present_get:
  assumes "board_get R s = Some d" "board_save now R body s = Inr (res, s')"
  shows "board_get R s' = Some (apply_set [(''name'', ser_string (name body)),
                      (''elements'', ser_array (elements body)),
                      (''lastModified'', BDate now)] d)"
proof -
  let ?p = "matches [(''roomId'', BStr R)]"
  let ?d' = "apply_set [(''name'', ser_string (name body)),
                      (''elements'', ser_array (elements body)),
                      (''lastModified'', BDate now)] d"
  from assms(1) have f: "List.find ?p (boards s) = Some d"
    by (simp add: board_get_def findOne_def)
  then have "?p d" by (rule find_Some_holds)
  then have m: "?p ?d'" by (intro matches_after_set) simp_all
  have "s' = s\<lparr>boards := replace_first ?p ?d' (boards s)\<rparr>"
    using assms(2) unfolding save_present [OF assms(1)] by (simp del: apply_set.simps)
  then have bs: "boards s' = replace_first ?p ?d' (boards s)"
    by simp
  have "List.find ?p (boards s') = Some ?d'"
    unfolding bs using f m by (rule find_replace_first)
  then show ?thesis
    unfolding board_get_def findOne_def .
qed

lemma save_absent_get:
  assumes "board_get R s = None" "board_save now R body s = Inr (res, s')"
  shows "board_get R s' = Some [(''_id'', BOid (next_oid s)), (''roomId'', BStr R),
              (''name'', ser_string (name body)),
              (''elements'', ser_array (elements body)),
              (''lastModified'', BDate now),
              (''owner'', ser_string (userEmail body)),
              (''collaborators'', BArr [])]"
proof -
  let ?p = "matches [(''roomId'', BStr R)]"
  let ?doc = "[(''_id'', BOid (next_oid s)), (''roomId'', BStr R),
              (''name'', ser_string (name body)),
              (''elements'', ser_array (elements body)),
              (''lastModified'', BDate now),
              (''owner'', ser_string (userEmail body)),
              (''collaborators'', BArr [])]"
  from assms(1) have f: "List.find ?p (boards s) = None"
    by (simp add: board_get_def findOne_def)
  have m: "?p ?doc"
    by (simp add: matches_def field_matches_def)
  have "s' = \<lparr>boards = boards s @ [?doc], next_oid = Suc (next_oid s)\<rparr>"
    using assms(2) unfolding save_absent [OF assms(1)] by simp
  then have bs: "boards s' = boards s @ [?doc]"
    by simp
  have "List.find ?p (boards s') = Some ?doc"
    unfolding bs using f m by (rule find_snoc_new)
  then show ?thesis
    unfolding board_get_def findOne_def .
qed

lemma get_empty: "board_get R empty_db = None"
  by (simp add: board_get_def findOne_def empty_db_def)

lemma get_db_r1: "board_get ''r1'' db_r1 = Some board_r1"
  by (simp add: board_get_def findOne_def db_r1_def board_r1_def matches_def field_matches_def)


section \<open>Facts about invitations, deletions and the shape of the collection\<close>

lemma addToSet_one:
  assumes "apply_addToSet [(k, v)] d = Inr d'"
  shows "apply_addToSet [(k, v)] d' = Inr d'"
    and "k' \<noteq> k \<Longrightarrow> map_of d' k' = map_of d k'"
    and "\<exists>xs. map_of d' k = Some (BArr xs) \<and> v \<in> set xs"
  using assms
  by (auto simp: update_conv' split: option.splits bson.splits if_splits)

lemma updateOne_match:
  assumes "findOne flt (boards s) = Some d" "apply_update u d = Inr d'"
  shows "updateOne flt u up s =
     Inr (\<lparr>matchedCount = 1, modifiedCount = (if d' = d then 0 else 1),
           upsertedCount = 0, upsertedId = None\<rparr>,
          s\<lparr>boards := replace_first (matches flt) d' (boards s)\<rparr>)"
  using assms by (simp add: updateOne_def)

lemma invite_idem:
  assumes "board_invite b s = Inr (r1, s1)"
  shows "\<exists>r2. board_invite b s1 = Inr (r2, s1) \<and> modifiedCount r2 = 0"
proof (cases "findOne [(''roomId'', ser_string (roomId b))] (boards s)")
  case None
  with assms have "s1 = s"
    by (simp add: board_invite_def updateOne_def)
  with None show ?thesis
    by (simp add: board_invite_def updateOne_def no_change_def)
next
  case (Some d)
  let ?flt = "[(''roomId'', ser_string (roomId b))]"
  let ?kv = "(''collaborators'', ser_string (inviteeEmail b))"
  let ?u = "\<lparr>op_set = [], op_setOnInsert = [], op_addToSet = [?kv]\<rparr>"
  from assms Some obtain d' where d': "apply_addToSet [?kv] d = Inr d'"
    by (cases "apply_addToSet [?kv] d")
       (simp_all add: board_invite_def updateOne_def apply_update_def)
  then have au: "apply_update ?u d = Inr d'"
    by (simp add: apply_update_def)
  have s1: "s1 = s\<lparr>boards := replace_first (matches ?flt) d' (boards s)\<rparr>"
    using assms unfolding board_invite_def updateOne_match [OF Some au] by simp
  from Some have f: "List.find (matches ?flt) (boards s) = Some d"
    by (simp add: findOne_def)
  then have "matches ?flt d" by (rule find_Some_holds)
  moreover have "\<forall>k \<in> fst ` set ?flt. map_of d' k = map_of d k"
    using addToSet_one(2) [OF d', of "''roomId''"] by simp
  ultimately have m: "matches ?flt d'"
    using matches_cong by blast
  have f1: "findOne ?flt (boards s1) = Some d'"
    unfolding s1 findOne_def using f m by (simp add: find_replace_first)
  have au1: "apply_update ?u d' = Inr d'"
    using addToSet_one(1) [OF d'] by (simp add: apply_update_def)
  have "replace_first (matches ?flt) d' (boards s1) = boards s1"
    unfolding s1 using m by (simp add: replace_first_idem)
  then have "s1\<lparr>boards := replace_first (matches ?flt) d' (boards s1)\<rparr> = s1"
    by simp
  then show ?thesis
    unfolding board_invite_def updateOne_match [OF f1 au1] by simp
qed


lemma set_replace_first: "set (replace_first p y xs) \<subseteq> insert y (set xs)"
  by (induction xs) auto

lemma set_remove_first: "set (remove_first p xs) \<subseteq> set xs"
  by (induction xs) auto

lemma map_replace_first:
  "List.find p xs = Some x \<Longrightarrow> f y = f x \<Longrightarrow> map f (replace_first p y xs) = map f xs"
  by (induction xs) (auto split: if_splits)

lemma list_all_replace_first:
  "list_all Q xs \<Longrightarrow> Q y \<Longrightarrow> list_all Q (replace_first p y xs)"
  by (induction xs) auto

lemma list_all_remove_first:
  "list_all Q xs \<Longrightarrow> list_all Q (remove_first p xs)"
  by (induction xs) auto

lemma distinct_map_remove_first:
  "distinct (map f xs) \<Longrightarrow> distinct (map f (remove_first p xs))"
proof (induction xs)
  case Nil
  then show ?case by simp
next
  case (Cons a xs)
  have "f a \<notin> f ` set (remove_first p xs)"
    using Cons.prems set_remove_first [of p xs] by auto
  with Cons show ?case by simp
qed

lemma matches_room_iff:
  assumes "is_string (room_of d)"
  shows "matches [(''roomId'', BStr R)] d \<longleftrightarrow> room_of d = Some (BStr R)"
  using assms
  by (auto simp: matches_def field_matches_def room_of_def is_string_def
           split: option.splits bson.splits)

lemma find_None_iff_room:
  assumes "list_all (\<lambda>d. is_string (room_of d)) c"
  shows "List.find (matches [(''roomId'', BStr R)]) c = None \<longleftrightarrow> Some (BStr R) \<notin> set (map room_of c)"
  using assms
proof (induction c)
  case Nil
  then show ?case by simp
next
  case (Cons d c)
  then have "is_string (room_of d)" by simp
  from matches_room_iff [OF this, of R] Cons show ?case by auto
qed

lemma find_remove_first_unique:
  assumes "distinct (map room_of c)" "list_all (\<lambda>d. is_string (room_of d)) c"
  shows "List.find (matches [(''roomId'', BStr R)])
           (remove_first (matches [(''roomId'', BStr R)]) c) = None"
  using assms
proof (induction c)
  case Nil
  then show ?case by simp
next
  case (Cons d c)
  let ?p = "matches [(''roomId'', BStr R)]"
  from Cons.prems have sd: "is_string (room_of d)" and sc: "list_all (\<lambda>d. is_string (room_of d)) c"
    and dc: "distinct (map room_of c)" and nd: "room_of d \<notin> set (map room_of c)"
    by simp_all
  show ?case
  proof (cases "?p d")
    case True
    then have "room_of d = Some (BStr R)"
      using matches_room_iff [OF sd] by simp
    with nd have "Some (BStr R) \<notin> set (map room_of c)" by simp
    then have "List.find ?p c = None"
      using find_None_iff_room [OF sc] by simp
    with True show ?thesis by simp
  next
    case False
    with Cons.IH [OF dc sc] show ?thesis by simp
  qed
qed


lemma find_Some_in: "List.find p xs = Some x \<Longrightarrow> x \<in> set xs"
  by (induction xs) (auto split: if_splits)

lemma wf_replace:
  assumes wf: "wf_boards c"
    and f: "List.find p c = Some d"
    and r: "room_of d' = room_of d"
    and a: "is_array (map_of d' ''collaborators'')"
  shows "wf_boards (replace_first p d' c)"
proof -
  from f have din: "d \<in> set c" by (rule find_Some_in)
  from wf have "list_all (\<lambda>d. is_string (room_of d)) c"
    by (simp add: wf_boards_def)
  with din have "is_string (room_of d)"
    by (simp add: list_all_iff)
  with r have sd': "is_string (room_of d')" by simp
  have m: "map room_of (replace_first p d' c) = map room_of c"
    using f r by (rule map_replace_first)
  have l1: "list_all (\<lambda>d. is_string (room_of d)) (replace_first p d' c)"
    using wf sd' by (simp add: wf_boards_def list_all_replace_first)
  have l2: "list_all (\<lambda>d. is_array (map_of d ''collaborators'')) (replace_first p d' c)"
    using wf a by (simp add: wf_boards_def list_all_replace_first)
  from wf m l1 l2 show ?thesis
    by (simp add: wf_boards_def)
qed

lemma wf_save:
  assumes wf: "wf_boards (boards s)" and r: "board_save now R body s = Inr (res, s')"
  shows "wf_boards (boards s')"
proof (cases "board_get R s")
  case None
  let ?doc = "[(''_id'', BOid (next_oid s)), (''roomId'', BStr R),
              (''name'', ser_string (name body)),
              (''elements'', ser_array (elements body)),
              (''lastModified'', BDate now),
              (''owner'', ser_string (userEmail body)),
              (''collaborators'', BArr [])]"
  have "s' = \<lparr>boards = boards s @ [?doc], next_oid = Suc (next_oid s)\<rparr>"
    using r unfolding save_absent [OF None] by simp
  then have bs: "boards s' = boards s @ [?doc]" by simp
  from wf have sc: "list_all (\<lambda>d. is_string (room_of d)) (boards s)"
    by (simp add: wf_boards_def)
  from None have "List.find (matches [(''roomId'', BStr R)]) (boards s) = None"
    by (simp add: board_get_def findOne_def)
  then have fresh: "Some (BStr R) \<notin> set (map room_of (boards s))"
    using find_None_iff_room [OF sc] by simp
  have rd: "room_of ?doc = Some (BStr R)"
    by (simp add: room_of_def)
  have ad: "is_array (map_of ?doc ''collaborators'')"
    by (simp add: is_array_def)
  have sd: "is_string (room_of ?doc)"
    unfolding rd by (simp add: is_string_def)
  have "distinct (map room_of (boards s @ [?doc]))"
    using wf fresh rd by (simp add: wf_boards_def)
  moreover have "list_all (\<lambda>d. is_string (room_of d)) (boards s @ [?doc])"
    using sc sd by simp
  moreover have "list_all (\<lambda>d. is_array (map_of d ''collaborators'')) (boards s @ [?doc])"
    using wf ad by (simp add: wf_boards_def)
  ultimately show ?thesis
    unfolding bs wf_boards_def by blast
next
  case (Some d)
  let ?p = "matches [(''roomId'', BStr R)]"
  let ?d' = "apply_set [(''name'', ser_string (name body)),
                        (''elements'', ser_array (elements body)),
                        (''lastModified'', BDate now)] d"
  have "s' = s\<lparr>boards := replace_first ?p ?d' (boards s)\<rparr>"
    using r unfolding save_present [OF Some] by (simp del: apply_set.simps)
  then have bs: "boards s' = replace_first ?p ?d' (boards s)" by simp
  from Some have f: "List.find ?p (boards s) = Some d"
    by (simp add: board_get_def findOne_def)
  then have din: "d \<in> set (boards s)" by (rule find_Some_in)
  from wf din have "is_array (map_of d ''collaborators'')"
    by (simp add: wf_boards_def list_all_iff)
  then have a: "is_array (map_of ?d' ''collaborators'')"
    by (simp add: update_conv')
  have rr: "room_of ?d' = room_of d"
    by (simp add: room_of_def update_conv')
  show ?thesis
    unfolding bs using wf f rr a by (rule wf_replace)
qed

lemma wf_invite:
  assumes wf: "wf_boards (boards s)" and r: "board_invite b s = Inr (res, s')"
  shows "wf_boards (boards s')"
proof (cases "findOne [(''roomId'', ser_string (roomId b))] (boards s)")
  case None
  with r have "s' = s"
    by (simp add: board_invite_def updateOne_def)
  with wf show ?thesis by simp
next
  case (Some d)
  let ?flt = "[(''roomId'', ser_string (roomId b))]"
  let ?kv = "(''collaborators'', ser_string (inviteeEmail b))"
  let ?u = "\<lparr>op_set = [], op_setOnInsert = [], op_addToSet = [?kv]\<rparr>"
  from r Some obtain d' where d': "apply_addToSet [?kv] d = Inr d'"
    by (cases "apply_addToSet [?kv] d")
       (simp_all add: board_invite_def updateOne_def apply_update_def)
  then have au: "apply_update ?u d = Inr d'"
    by (simp add: apply_update_def)
  have "s' = s\<lparr>boards := replace_first (matches ?flt) d' (boards s)\<rparr>"
    using r unfolding board_invite_def updateOne_match [OF Some au] by simp
  then have bs: "boards s' = replace_first (matches ?flt) d' (boards s)" by simp
  from Some have f: "List.find (matches ?flt) (boards s) = Some d"
    by (simp add: findOne_def)
  have rr: "room_of d' = room_of d"
    unfolding room_of_def using addToSet_one(2) [OF d', of "''roomId''"] by simp
  have a: "is_array (map_of d' ''collaborators'')"
    using addToSet_one(3) [OF d'] by (auto simp: is_array_def)
  show ?thesis
    unfolding bs using wf f rr a by (rule wf_replace)
qed

lemma wf_delete:
  assumes wf: "wf_boards (boards s)"
  shows "wf_boards (boards (snd (board_delete R s)))"
proof (cases "findOne [(''roomId'', BStr R)] (boards s)")
  case None
  with wf show ?thesis
    by (simp add: board_delete_def deleteOne_def)
next
  case (Some d)
  then have "boards (snd (board_delete R s))
               = remove_first (matches [(''roomId'', BStr R)]) (boards s)"
    by (simp add: board_delete_def deleteOne_def)
  with wf show ?thesis
    by (simp add: wf_boards_def distinct_map_remove_first list_all_remove_first)
qed

lemma wf_handle: "wf_boards (boards s) \<Longrightarrow> wf_boards (boards (handle q s))"
proof (cases q)
  case (Save now R body)
  assume wf: "wf_boards (boards s)"
  show ?thesis
  proof (cases "board_save now R body s")
    case (Inl e)
    with Save wf show ?thesis by simp
  next
    case (Inr p)
    obtain res s' where p: "p = (res, s')" by (cases p)
    with Inr have "board_save now R body s = Inr (res, s')" by simp
    from wf_save [OF wf this] Save Inr p show ?thesis by simp
  qed
next
  case (Invite b)
  assume wf: "wf_boards (boards s)"
  show ?thesis
  proof (cases "board_invite b s")
    case (Inl e)
    with Invite wf show ?thesis by simp
  next
    case (Inr p)
    obtain res s' where p: "p = (res, s')" by (cases p)
    with Inr have "board_invite b s = Inr (res, s')" by simp
    from wf_invite [OF wf this] Invite Inr p show ?thesis by simp
  qed
next
  case (Delete R)
  assume wf: "wf_boards (boards s)"
  from wf_delete [OF wf, of R] Delete show ?thesis by simp
qed

lemma wf_run: "wf_boards (boards s) \<Longrightarrow> wf_boards (boards (run reqs s))"
  unfolding run_def
  by (induction reqs arbitrary: s) (simp_all add: wf_handle)

lemma wf_reachable: "wf_boards (boards (run reqs empty_db))"
  by (rule wf_run) (simp add: empty_db_def wf_boards_def)


lemma invite_present_get:
  assumes g: "board_get R s = Some d"
    and c: "map_of d ''collaborators'' = Some (BArr xs)"
    and r: "board_invite \<lparr>roomId = Some R, inviteeEmail = x\<rparr> s = Inr (r1, s1)"
  shows "\<exists>d1. board_get R s1 = Some d1
           \<and> map_of d1 ''collaborators''
               = Some (BArr (if ser_string x \<in> set xs then xs else xs @ [ser_string x]))"
proof -
  let ?flt = "[(''roomId'', BStr R)]"
  let ?kv = "(''collaborators'', ser_string x)"
  let ?u = "\<lparr>op_set = [], op_setOnInsert = [], op_addToSet = [?kv]\<rparr>"
  let ?d1 = "if ser_string x \<in> set xs then d
             else AList.update ''collaborators'' (BArr (xs @ [ser_string x])) d"
  from g have fo: "findOne ?flt (boards s) = Some d"
    by (simp add: board_get_def)
  then have f: "List.find (matches ?flt) (boards s) = Some d"
    by (simp add: findOne_def)
  have au: "apply_update ?u d = Inr ?d1"
    using c by (simp add: apply_update_def)
  have "s1 = s\<lparr>boards := replace_first (matches ?flt) ?d1 (boards s)\<rparr>"
    using r unfolding board_invite_def using updateOne_match [OF fo au, of False] by simp
  then have bs: "boards s1 = replace_first (matches ?flt) ?d1 (boards s)" by simp
  from f have "matches ?flt d" by (rule find_Some_holds)
  moreover have "\<forall>k \<in> fst ` set ?flt. map_of ?d1 k = map_of d k"
    by (simp add: update_conv')
  ultimately have m: "matches ?flt ?d1"
    using matches_cong by blast
  have "List.find (matches ?flt) (boards s1) = Some ?d1"
    unfolding bs using f m by (rule find_replace_first)
  then have g1: "board_get R s1 = Some ?d1"
    by (simp add: board_get_def findOne_def)
  have c1: "map_of ?d1 ''collaborators''
               = Some (BArr (if ser_string x \<in> set xs then xs else xs @ [ser_string x]))"
    using c by (simp add: update_conv')
  from g1 c1 show ?thesis by blast
qed

lemma run_r1:
  "run [Save 1 ''r1'' \<lparr>name = Some ''Untitled'', elements = Some [],
                        userEmail = Some ''a@x.com''\<rparr>] empty_db = db_r1"
  by (simp add: run_def board_save_def updateOne_def findOne_def apply_insert_def
        empty_db_def db_r1_def board_r1_def)

lemma invite_db_r1:
  "board_invite \<lparr>roomId = Some ''r1'', inviteeEmail = Some ''c@x.com''\<rparr> db_r1
     = Inr (\<lparr>matchedCount = 1, modifiedCount = 1, upsertedCount = 0, upsertedId = None\<rparr>,
            db_r1_shared)"
  by (simp add: board_invite_def updateOne_def findOne_def apply_update_def
        db_r1_def board_r1_def db_r1_shared_def matches_def field_matches_def)

lemma collaborators_r1: "map_of board_r1 ''collaborators'' = Some (BArr [])"
  by (simp add: board_r1_def)

section \<open>Where the boards of a store come from\<close>

lemma handle_docs:
  assumes "d' \<in> set (boards (handle q s))"
  shows "(\<exists>d \<in> set (boards s). room_of d' = room_of d \<and> map_of d' ''owner'' = map_of d ''owner'')
         \<or> created_by q d'"
proof (cases q)
  case (Save now R body)
  show ?thesis
  proof (cases "board_get R s")
    case None
    let ?doc = "[(''_id'', BOid (next_oid s)), (''roomId'', BStr R),
              (''name'', ser_string (name body)),
              (''elements'', ser_array (elements body)),
              (''lastModified'', BDate now),
              (''owner'', ser_string (userEmail body)),
              (''collaborators'', BArr [])]"
    have "boards (handle q s) = boards s @ [?doc]"
      unfolding Save handle.simps save_absent [OF None] by simp
    with assms have "d' \<in> set (boards s) \<or> d' = ?doc" by auto
    then show ?thesis
    proof
      assume "d' \<in> set (boards s)"
      then show ?thesis by blast
    next
      assume "d' = ?doc"
      then have "created_by q d'"
        by (simp add: created_by_def Save room_of_def)
      then show ?thesis by blast
    qed
  next
    case (Some d)
    let ?p = "matches [(''roomId'', BStr R)]"
    let ?d1 = "apply_set [(''name'', ser_string (name body)),
                        (''elements'', ser_array (elements body)),
                        (''lastModified'', BDate now)] d"
    have "boards (handle q s) = replace_first ?p ?d1 (boards s)"
      unfolding Save handle.simps save_present [OF Some] by (simp del: apply_set.simps)
    with assms set_replace_first [of ?p ?d1 "boards s"]
    have "d' = ?d1 \<or> d' \<in> set (boards s)" by auto
    then show ?thesis
    proof
      assume e: "d' = ?d1"
      from Some have "List.find ?p (boards s) = Some d"
        by (simp add: board_get_def findOne_def)
      then have "d \<in> set (boards s)" by (rule find_Some_in)
      moreover have "room_of d' = room_of d" "map_of d' ''owner'' = map_of d ''owner''"
        unfolding e by (simp_all add: room_of_def update_conv')
      ultimately show ?thesis by blast
    next
      assume "d' \<in> set (boards s)"
      then show ?thesis by blast
    qed
  qed
next
  case (Invite b)
  let ?flt = "[(''roomId'', ser_string (roomId b))]"
  let ?kv = "(''collaborators'', ser_string (inviteeEmail b))"
  let ?u = "\<lparr>op_set = [], op_setOnInsert = [], op_addToSet = [?kv]\<rparr>"
  show ?thesis
  proof (cases "board_invite b s")
    case (Inl e)
    with assms Invite have "d' \<in> set (boards s)" by simp
    then show ?thesis by blast
  next
    case (Inr p)
    obtain res s' where p: "p = (res, s')" by (cases p)
    with Inr have r: "board_invite b s = Inr (res, s')" by simp
    with Invite have hs: "handle q s = s'" by simp
    show ?thesis
    proof (cases "findOne ?flt (boards s)")
      case None
      with r have "s' = s"
        by (simp add: board_invite_def updateOne_def)
      with assms hs have "d' \<in> set (boards s)" by simp
      then show ?thesis by blast
    next
      case (Some d)
      from r Some obtain d1 where d1: "apply_addToSet [?kv] d = Inr d1"
        by (cases "apply_addToSet [?kv] d")
           (simp_all add: board_invite_def updateOne_def apply_update_def)
      then have au: "apply_update ?u d = Inr d1"
        by (simp add: apply_update_def)
      have "s' = s\<lparr>boards := replace_first (matches ?flt) d1 (boards s)\<rparr>"
        using r unfolding board_invite_def updateOne_match [OF Some au] by simp
      then have "boards s' = replace_first (matches ?flt) d1 (boards s)" by simp
      with assms hs set_replace_first [of "matches ?flt" d1 "boards s"]
      have "d' = d1 \<or> d' \<in> set (boards s)" by auto
      then show ?thesis
      proof
        assume e: "d' = d1"
        from Some have "List.find (matches ?flt) (boards s) = Some d"
          by (simp add: findOne_def)
        then have "d \<in> set (boards s)" by (rule find_Some_in)
        moreover have "room_of d' = room_of d" "map_of d' ''owner'' = map_of d ''owner''"
          unfolding e room_of_def
          using addToSet_one(2) [OF d1, of "''roomId''"] addToSet_one(2) [OF d1, of "''owner''"]
          by simp_all
        ultimately show ?thesis by blast
      next
        assume "d' \<in> set (boards s)"
        then show ?thesis by blast
      qed
    qed
  qed
next
  case (Delete R)
  have "set (boards (snd (board_delete R s))) \<subseteq> set (boards s)"
    using set_remove_first [of "matches [(''roomId'', BStr R)]" "boards s"]
    by (simp add: board_delete_def deleteOne_def split: option.splits)
  with assms Delete have "d' \<in> set (boards s)" by auto
  then show ?thesis by blast
qed

lemma run_snoc: "run (reqs @ [q]) s = handle q (run reqs s)"
  by (simp add: run_def)

lemma run_docs:
  "d \<in> set (boards (run reqs empty_db)) \<Longrightarrow> list_ex (\<lambda>q. created_by q d) reqs"
proof (induction reqs arbitrary: d rule: rev_induct)
  case Nil
  then show ?case by (simp add: run_def empty_db_def)
next
  case (snoc q reqs)
  from snoc.prems have "d \<in> set (boards (handle q (run reqs empty_db)))"
    by (simp add: run_snoc)
  from handle_docs [OF this] show ?case
  proof
    assume "\<exists>d0 \<in> set (boards (run reqs empty_db)).
              room_of d = room_of d0 \<and> map_of d ''owner'' = map_of d0 ''owner''"
    then obtain d0 where d0: "d0 \<in> set (boards (run reqs empty_db))"
      and k: "room_of d = room_of d0" "map_of d ''owner'' = map_of d0 ''owner''"
      by blast
    from snoc.IH [OF d0] obtain q0 where "q0 \<in> set reqs" "created_by q0 d0"
      by (auto simp: list_ex_iff)
    with k have "q0 \<in> set (reqs @ [q])" "created_by q0 d"
      by (auto simp: created_by_def split: request.splits)
    then show ?thesis
      unfolding list_ex_iff by blast
  next
    assume "created_by q d"
    then show ?thesis by (simp add: list_ex_iff)
  qed
qed

lemma created_by_saved:
  assumes "list_ex (\<lambda>q. created_by q d) reqs"
  shows "\<exists>r now body. Save now r body \<in> set reqs \<and> room_of d = Some (BStr r)
           \<and> map_of d ''owner'' = Some (ser_string (userEmail body))"
proof -
  from assms obtain q where q: "q \<in> set reqs" "created_by q d"
    by (auto simp: list_ex_iff)
  show ?thesis
  proof (cases q)
    case (Save now r body)
    with q show ?thesis by (auto simp: created_by_def)
  next
    case (Invite b)
    with q show ?thesis by (simp add: created_by_def)
  next
    case (Delete r)
    with q show ?thesis by (simp add: created_by_def)
  qed
qed

lemma saved_iff: "saved R reqs \<longleftrightarrow> (\<exists>now body. Save now R body \<in> set reqs)"
proof
  assume "saved R reqs"
  then obtain q where q: "q \<in> set reqs" "is_save_for R q"
    by (auto simp: saved_def list_ex_iff)
  show "\<exists>now body. Save now R body \<in> set reqs"
  proof (cases q)
    case (Save now r body)
    with q show ?thesis by auto
  next
    case (Invite b)
    with q show ?thesis by simp
  next
    case (Delete r)
    with q show ?thesis by simp
  qed
next
  assume "\<exists>now body. Save now R body \<in> set reqs"
  then obtain now body where "Save now R body \<in> set reqs" by blast
  moreover have "is_save_for R (Save now R body)" by simp
  ultimately show "saved R reqs"
    unfolding saved_def list_ex_iff by blast
qed


lemma never_saved_absent:
  assumes ns: "\<not> saved R reqs"
  shows "board_get R (run reqs empty_db) = None"
proof (rule ccontr)
  let ?s = "run reqs empty_db"
  let ?p = "matches [(''roomId'', BStr R)]"
  assume "board_get R ?s \<noteq> None"
  then obtain d where f: "List.find ?p (boards ?s) = Some d"
    by (auto simp: board_get_def findOne_def)
  then have din: "d \<in> set (boards ?s)" and m: "?p d"
    by (rule find_Some_in, rule find_Some_holds)
  have "wf_boards (boards ?s)" by (rule wf_reachable)
  with din have "is_string (room_of d)"
    by (simp add: wf_boards_def list_all_iff)
  with m have rd: "room_of d = Some (BStr R)"
    by (simp add: matches_room_iff)
  from created_by_saved [OF run_docs [OF din]] obtain r t b where
    "Save t r b \<in> set reqs" "room_of d = Some (BStr r)"
    by blast
  with rd have "Save t R b \<in> set reqs" by simp
  then have "saved R reqs"
    unfolding saved_iff by blast
  with ns show False by simp
qed

text \<open>
  When every save of the sequence carries \<^verbatim>\<open>userEmail\<close>, the owner of each
  board of the store is the identity of a save of the board's room.
\<close>

lemma owner_is_requester:
  assumes w: "list_all has_userEmail reqs"
    and d: "d \<in> set (boards (run reqs empty_db))"
  shows "\<exists>r t b u. Save t r b \<in> set reqs \<and> userEmail b = Some u
           \<and> room_of d = Some (BStr r) \<and> map_of d ''owner'' = Some (BStr u)"
proof -
  from created_by_saved [OF run_docs [OF d]] obtain r t b where
    s: "Save t r b \<in> set reqs" and r: "room_of d = Some (BStr r)"
    and o: "map_of d ''owner'' = Some (ser_string (userEmail b))"
    by blast
  from w s have "has_userEmail (Save t r b)"
    by (auto simp: list_all_iff)
  then obtain u where u: "userEmail b = Some u" by auto
  with o have "map_of d ''owner'' = Some (BStr u)" by simp
  with s u r show ?thesis by blast
qed

section \<open>Facts about the session\<close>

lemma step_membership_inbox:
  "membership_only m \<Longrightarrow> inbox (step m st) = inbox st"
  by (cases m) (simp_all add: on_join_room_def on_disconnect_def join_def remove_def)

lemma session_membership_inbox:
  "list_all membership_only later \<Longrightarrow> inbox (session later st) = inbox st"
  unfolding session_def
  by (induction later arbitrary: st) (simp_all add: step_membership_inbox)

section \<open>First save and later saves\<close>

text \<open>
  Claim C1. A save for a room identifier that has no board record creates the
  record with \<^verbatim>\<open>owner\<close> the requesting identity and \<^verbatim>\<open>collaborators\<close>
  the empty array. A save for a room identifier whose record exists, by any
  identity, leaves \<^verbatim>\<open>owner\<close> as it was and stores the new name and elements.
\<close>

theorem save_first_sets_owner_later_keeps_it:
  "(board_get R s = None \<longrightarrow>
      (\<exists>res s' d. board_save now R \<lparr>name = n, elements = e, userEmail = u\<rparr> s = Inr (res, s')
         \<and> board_get R s' = Some d
         \<and> map_of d ''owner'' = Some (ser_string u)
         \<and> map_of d ''collaborators'' = Some (BArr [])))
   \<and> (\<forall>d. board_get R s = Some d \<longrightarrow>
      (\<exists>res s' d'. board_save now2 R \<lparr>name = n2, elements = e2, userEmail = u2\<rparr> s = Inr (res, s')
         \<and> board_get R s' = Some d'
         \<and> map_of d' ''owner'' = map_of d ''owner''
         \<and> map_of d' ''name'' = Some (ser_string n2)
         \<and> map_of d' ''elements'' = Some (ser_array e2)))"
proof (intro conjI impI allI)
  assume a: "board_get R s = None"
  let ?b = "\<lparr>name = n, elements = e, userEmail = u\<rparr>"
  obtain res s' where r: "board_save now R ?b s = Inr (res, s')"
    using save_absent [OF a] by blast
  have g: "board_get R s' = Some [(''_id'', BOid (next_oid s)), (''roomId'', BStr R),
              (''name'', ser_string n), (''elements'', ser_array e),
              (''lastModified'', BDate now), (''owner'', ser_string u),
              (''collaborators'', BArr [])]"
    using save_absent_get [OF a r] by simp
  have "board_save now R ?b s = Inr (res, s')
         \<and> board_get R s' = Some [(''_id'', BOid (next_oid s)), (''roomId'', BStr R),
              (''name'', ser_string n), (''elements'', ser_array e),
              (''lastModified'', BDate now), (''owner'', ser_string u),
              (''collaborators'', BArr [])]
         \<and> map_of [(''_id'', BOid (next_oid s)), (''roomId'', BStr R),
              (''name'', ser_string n), (''elements'', ser_array e),
              (''lastModified'', BDate now), (''owner'', ser_string u),
              (''collaborators'', BArr [])] ''owner'' = Some (ser_string u)
         \<and> map_of [(''_id'', BOid (next_oid s)), (''roomId'', BStr R),
              (''name'', ser_string n), (''elements'', ser_array e),
              (''lastModified'', BDate now), (''owner'', ser_string u),
              (''collaborators'', BArr [])] ''collaborators'' = Some (BArr [])"
    using r g by simp
  then show
    "\<exists>res s' d. board_save now R ?b s = Inr (res, s')
         \<and> board_get R s' = Some d
         \<and> map_of d ''owner'' = Some (ser_string u)
         \<and> map_of d ''collaborators'' = Some (BArr [])"
    by blast
next
  fix d assume a: "board_get R s = Some d"
  let ?b = "\<lparr>name = n2, elements = e2, userEmail = u2\<rparr>"
  let ?d' = "apply_set [(''name'', ser_string n2), (''elements'', ser_array e2),
                        (''lastModified'', BDate now2)] d"
  obtain res s' where r: "board_save now2 R ?b s = Inr (res, s')"
    using save_present [OF a] by blast
  have g: "board_get R s' = Some ?d'"
    using save_present_get [OF a r] by simp
  have "map_of ?d' ''owner'' = map_of d ''owner''"
       "map_of ?d' ''name'' = Some (ser_string n2)"
       "map_of ?d' ''elements'' = Some (ser_array e2)"
    by (simp_all add: update_conv')
  with r g have "board_save now2 R ?b s = Inr (res, s')
         \<and> board_get R s' = Some ?d'
         \<and> map_of ?d' ''owner'' = map_of d ''owner''
         \<and> map_of ?d' ''name'' = Some (ser_string n2)
         \<and> map_of ?d' ''elements'' = Some (ser_array e2)"
    by blast
  then show
    "\<exists>res s' d'. board_save now2 R ?b s = Inr (res, s')
         \<and> board_get R s' = Some d'
         \<and> map_of d' ''owner'' = map_of d ''owner''
         \<and> map_of d' ''name'' = Some (ser_string n2)
         \<and> map_of d' ''elements'' = Some (ser_array e2)"
    by blast
qed

theorem save_first_sets_owner_later_keeps_it_witness:
  "(board_get ''r1'' empty_db = None
    \<and> (\<exists>res s' d.
          board_save 1 ''r1'' \<lparr>name = Some ''Untitled'', elements = Some [],
                               userEmail = Some ''a@x.com''\<rparr> empty_db = Inr (res, s')
        \<and> board_get ''r1'' s' = Some d
        \<and> map_of d ''owner'' = Some (BStr ''a@x.com'')
        \<and> map_of d ''collaborators'' = Some (BArr [])))
   \<and> (board_get ''r1'' db_r1 = Some board_r1
    \<and> (\<exists>res s' d'.
          board_save 2 ''r1'' \<lparr>name = Some ''Sketch'', elements = Some [BStr ''shape1''],
                               userEmail = Some ''b@x.com''\<rparr> db_r1 = Inr (res, s')
        \<and> board_get ''r1'' s' = Some d'
        \<and> map_of d' ''owner'' = Some (BStr ''a@x.com'')
        \<and> map_of d' ''name'' = Some (BStr ''Sketch'')
        \<and> map_of d' ''elements'' = Some (BArr [BStr ''shape1''])))"
proof -
  have h1: "board_get ''r1'' empty_db = None" by (rule get_empty)
  have h2: "board_get ''r1'' db_r1 = Some board_r1" by (rule get_db_r1)
  have o: "map_of board_r1 ''owner'' = Some (BStr ''a@x.com'')"
    by (simp add: board_r1_def)
  note t = save_first_sets_owner_later_keeps_it
    [where R = "''r1''" and now = 1 and n = "Some ''Untitled''" and e = "Some []"
       and u = "Some ''a@x.com''" and ?now2.0 = 2 and ?n2.0 = "Some ''Sketch''"
       and ?e2.0 = "Some [BStr ''shape1'']" and ?u2.0 = "Some ''b@x.com''"]
  have p1: "\<exists>res s' d.
          board_save 1 ''r1'' \<lparr>name = Some ''Untitled'', elements = Some [],
                               userEmail = Some ''a@x.com''\<rparr> empty_db = Inr (res, s')
        \<and> board_get ''r1'' s' = Some d
        \<and> map_of d ''owner'' = Some (BStr ''a@x.com'')
        \<and> map_of d ''collaborators'' = Some (BArr [])"
    using t [where s = empty_db, THEN conjunct1] h1 by simp
  have p2: "\<exists>res s' d'.
          board_save 2 ''r1'' \<lparr>name = Some ''Sketch'', elements = Some [BStr ''shape1''],
                               userEmail = Some ''b@x.com''\<rparr> db_r1 = Inr (res, s')
        \<and> board_get ''r1'' s' = Some d'
        \<and> map_of d' ''owner'' = Some (BStr ''a@x.com'')
        \<and> map_of d' ''name'' = Some (BStr ''Sketch'')
        \<and> map_of d' ''elements'' = Some (BArr [BStr ''shape1''])"
    using t [where s = db_r1, THEN conjunct2] h2 o by simp
  from h1 p1 h2 p2 show ?thesis by blast
qed

section \<open>What a save of an existing board may change\<close>

text \<open>
  Claim C2. A save of a board record that exists changes that one document only,
  and in it only the fields \<^verbatim>\<open>name\<close>, \<^verbatim>\<open>elements\<close> and
  \<^verbatim>\<open>lastModified\<close>: every other field, \<^verbatim>\<open>owner\<close> and
  \<^verbatim>\<open>collaborators\<close> among them, keeps its value, and the other documents
  of the collection stay where they are.
\<close>

theorem save_existing_frame:
  assumes "board_get R s = Some d"
  shows "\<exists>res s' d' pre post.
           board_save now R body s = Inr (res, s')
         \<and> boards s = pre @ d # post
         \<and> boards s' = pre @ d' # post
         \<and> next_oid s' = next_oid s
         \<and> board_get R s' = Some d'
         \<and> (\<forall>k. k \<notin> {''name'', ''elements'', ''lastModified''} \<longrightarrow> map_of d' k = map_of d k)
         \<and> map_of d' ''owner'' = map_of d ''owner''
         \<and> map_of d' ''collaborators'' = map_of d ''collaborators''"
proof -
  let ?p = "matches [(''roomId'', BStr R)]"
  let ?d' = "apply_set [(''name'', ser_string (name body)),
                        (''elements'', ser_array (elements body)),
                        (''lastModified'', BDate now)] d"
  obtain res s' where r: "board_save now R body s = Inr (res, s')"
    using save_present [OF assms] by blast
  have s': "s' = s\<lparr>boards := replace_first ?p ?d' (boards s)\<rparr>"
    using r unfolding save_present [OF assms] by (simp del: apply_set.simps)
  have g: "board_get R s' = Some ?d'"
    using assms r by (rule save_present_get)
  from assms have f: "List.find ?p (boards s) = Some d"
    by (simp add: board_get_def findOne_def)
  from replace_first_split [OF f, of ?d'] obtain pre post where
    sp: "boards s = pre @ d # post" "replace_first ?p ?d' (boards s) = pre @ ?d' # post"
    by blast
  have b': "boards s' = pre @ ?d' # post"
    unfolding s' using sp(2) by simp
  have n': "next_oid s' = next_oid s"
    unfolding s' by simp
  have fr: "\<forall>k. k \<notin> {''name'', ''elements'', ''lastModified''} \<longrightarrow> map_of ?d' k = map_of d k"
    by (simp add: update_conv')
  have ow: "map_of ?d' ''owner'' = map_of d ''owner''"
       "map_of ?d' ''collaborators'' = map_of d ''collaborators''"
    by (simp_all add: update_conv')
  from r sp(1) b' n' g fr ow show ?thesis by blast
qed

theorem save_existing_frame_witness:
  "board_get ''r1'' db_r1 = Some board_r1
   \<and> (\<exists>res s' d' pre post.
           board_save 2 ''r1'' \<lparr>name = Some ''Sketch'', elements = Some [BStr ''shape1''],
                               userEmail = Some ''b@x.com''\<rparr> db_r1 = Inr (res, s')
         \<and> boards db_r1 = pre @ board_r1 # post
         \<and> boards s' = pre @ d' # post
         \<and> next_oid s' = next_oid db_r1
         \<and> board_get ''r1'' s' = Some d'
         \<and> map_of d' ''roomId'' = Some (BStr ''r1'')
         \<and> map_of d' ''owner'' = Some (BStr ''a@x.com'')
         \<and> map_of d' ''collaborators'' = Some (BArr []))"
proof -
  have h: "board_get ''r1'' db_r1 = Some board_r1" by (rule get_db_r1)
  have o: "map_of board_r1 ''owner'' = Some (BStr ''a@x.com'')"
          "map_of board_r1 ''collaborators'' = Some (BArr [])"
          "map_of board_r1 ''roomId'' = Some (BStr ''r1'')"
    by (simp_all add: board_r1_def)
  have k: "''roomId'' \<notin> {''name'', ''elements'', ''lastModified''}"
    by simp
  have "\<exists>res s' d' pre post.
           board_save 2 ''r1'' \<lparr>name = Some ''Sketch'', elements = Some [BStr ''shape1''],
                               userEmail = Some ''b@x.com''\<rparr> db_r1 = Inr (res, s')
         \<and> boards db_r1 = pre @ board_r1 # post
         \<and> boards s' = pre @ d' # post
         \<and> next_oid s' = next_oid db_r1
         \<and> board_get ''r1'' s' = Some d'
         \<and> map_of d' ''roomId'' = map_of board_r1 ''roomId''
         \<and> map_of d' ''owner'' = map_of board_r1 ''owner''
         \<and> map_of d' ''collaborators'' = map_of board_r1 ''collaborators''"
    using save_existing_frame [where R = "''r1''" and s = db_r1 and d = board_r1 and now = 2
          and body = "\<lparr>name = Some ''Sketch'', elements = Some [BStr ''shape1''],
                               userEmail = Some ''b@x.com''\<rparr>", OF h]
    apply (elim exE conjE)
    apply (drule spec [where x = "''roomId''"])
    apply (drule mp [OF _ k])
    apply (intro exI conjI)
           apply assumption+
    done
  then have "\<exists>res s' d' pre post.
           board_save 2 ''r1'' \<lparr>name = Some ''Sketch'', elements = Some [BStr ''shape1''],
                               userEmail = Some ''b@x.com''\<rparr> db_r1 = Inr (res, s')
         \<and> boards db_r1 = pre @ board_r1 # post
         \<and> boards s' = pre @ d' # post
         \<and> next_oid s' = next_oid db_r1
         \<and> board_get ''r1'' s' = Some d'
         \<and> map_of d' ''roomId'' = Some (BStr ''r1'')
         \<and> map_of d' ''owner'' = Some (BStr ''a@x.com'')
         \<and> map_of d' ''collaborators'' = Some (BArr [])"
    unfolding o .
  with h show ?thesis by (rule conjI)
qed

section \<open>The requester of a later save\<close>

text \<open>
  Claim C10. On a board record that exists, two saves with the same name,
  elements and time but different requesting identities, run from the same
  store, give the same result and the same store: the identity has no influence,
  and the \<^verbatim>\<open>collaborators\<close> field keeps its value, so the requester is not
  added to it.
\<close>

theorem save_existing_ignores_requester:
  assumes "board_get R s = Some d"
  shows "board_save now R \<lparr>name = n, elements = e, userEmail = u1\<rparr> s
           = board_save now R \<lparr>name = n, elements = e, userEmail = u2\<rparr> s
       \<and> (\<exists>res s' d'. board_save now R \<lparr>name = n, elements = e, userEmail = u1\<rparr> s = Inr (res, s')
             \<and> board_get R s' = Some d'
             \<and> map_of d' ''collaborators'' = map_of d ''collaborators'')"
proof
  show "board_save now R \<lparr>name = n, elements = e, userEmail = u1\<rparr> s
           = board_save now R \<lparr>name = n, elements = e, userEmail = u2\<rparr> s"
    unfolding save_present [OF assms] by simp
next
  let ?b = "\<lparr>name = n, elements = e, userEmail = u1\<rparr>"
  let ?d' = "apply_set [(''name'', ser_string (name ?b)),
                        (''elements'', ser_array (elements ?b)),
                        (''lastModified'', BDate now)] d"
  obtain res s' where r: "board_save now R ?b s = Inr (res, s')"
    using save_present [OF assms] by blast
  have g: "board_get R s' = Some ?d'"
    using assms r by (rule save_present_get)
  have c: "map_of ?d' ''collaborators'' = map_of d ''collaborators''"
    by (simp add: update_conv')
  from r g c show "\<exists>res s' d'. board_save now R ?b s = Inr (res, s')
             \<and> board_get R s' = Some d'
             \<and> map_of d' ''collaborators'' = map_of d ''collaborators''"
    by blast
qed

theorem save_existing_ignores_requester_witness:
  "board_get ''r1'' db_r1 = Some board_r1
   \<and> board_save 2 ''r1'' \<lparr>name = Some ''Sketch'', elements = Some [], userEmail = Some ''a@x.com''\<rparr> db_r1
       = board_save 2 ''r1'' \<lparr>name = Some ''Sketch'', elements = Some [], userEmail = Some ''b@x.com''\<rparr> db_r1"
proof -
  have h: "board_get ''r1'' db_r1 = Some board_r1" by (rule get_db_r1)
  have e: "board_save 2 ''r1'' \<lparr>name = Some ''Sketch'', elements = Some [], userEmail = Some ''a@x.com''\<rparr> db_r1
       = board_save 2 ''r1'' \<lparr>name = Some ''Sketch'', elements = Some [], userEmail = Some ''b@x.com''\<rparr> db_r1"
    using h by (rule save_existing_ignores_requester [THEN conjunct1])
  from h e show ?thesis by (rule conjI)
qed

section \<open>Inviting to a board that does not exist\<close>

text \<open>
  Claim C9. When no board record matches the room identifier, the invite
  request changes nothing: the store after the call is the store before it, no
  record is created, and the result reports zero matched (and zero modified and
  zero upserted) documents instead of an error.
\<close>

theorem invite_absent_noop:
  assumes "board_get R s = None"
  shows "board_invite \<lparr>roomId = Some R, inviteeEmail = x\<rparr> s
           = Inr (\<lparr>matchedCount = 0, modifiedCount = 0, upsertedCount = 0, upsertedId = None\<rparr>, s)"
  using assms by (simp add: board_invite_def board_get_def updateOne_def no_change_def)

theorem invite_absent_noop_witness:
  "board_get ''r1'' empty_db = None
   \<and> board_invite \<lparr>roomId = Some ''r1'', inviteeEmail = Some ''c@x.com''\<rparr>
        empty_db
      = Inr (\<lparr>matchedCount = 0, modifiedCount = 0, upsertedCount = 0, upsertedId = None\<rparr>,
             empty_db)"
proof -
  have h: "board_get ''r1'' empty_db = None"
    by (rule get_empty)
  have "board_invite \<lparr>roomId = Some ''r1'', inviteeEmail = Some ''c@x.com''\<rparr> empty_db
          = Inr (\<lparr>matchedCount = 0, modifiedCount = 0, upsertedCount = 0, upsertedId = None\<rparr>,
                 empty_db)"
    using h by (rule invite_absent_noop)
  with h show ?thesis by (rule conjI)
qed

section \<open>Inviting twice\<close>

text \<open>
  Claim C5. An invite that the store accepts, repeated on the store it produced,
  is accepted again, modifies nothing and returns the same store: the second
  set-add of the same identity changes nothing. When the board exists with an
  array of collaborators, the array afterwards is the old one if it had the
  identity already and the old one with the identity appended once otherwise, so
  no duplicate is created.
\<close>

theorem invite_twice_idempotent:
  assumes "board_invite \<lparr>roomId = Some R, inviteeEmail = x\<rparr> s = Inr (r1, s1)"
  shows "(\<exists>r2. board_invite \<lparr>roomId = Some R, inviteeEmail = x\<rparr> s1 = Inr (r2, s1)
              \<and> modifiedCount r2 = 0)
       \<and> (\<forall>d xs. board_get R s = Some d \<and> map_of d ''collaborators'' = Some (BArr xs) \<longrightarrow>
             (\<exists>d1. board_get R s1 = Some d1
                \<and> map_of d1 ''collaborators''
                    = Some (BArr (if ser_string x \<in> set xs then xs else xs @ [ser_string x]))))"
proof (intro conjI allI impI)
  show "\<exists>r2. board_invite \<lparr>roomId = Some R, inviteeEmail = x\<rparr> s1 = Inr (r2, s1)
              \<and> modifiedCount r2 = 0"
    using assms by (rule invite_idem)
next
  fix d xs
  assume "board_get R s = Some d \<and> map_of d ''collaborators'' = Some (BArr xs)"
  then have g: "board_get R s = Some d" and c: "map_of d ''collaborators'' = Some (BArr xs)"
    by simp_all
  from g c assms show "\<exists>d1. board_get R s1 = Some d1
                \<and> map_of d1 ''collaborators''
                    = Some (BArr (if ser_string x \<in> set xs then xs else xs @ [ser_string x]))"
    by (rule invite_present_get)
qed

theorem invite_twice_idempotent_witness:
  "board_invite \<lparr>roomId = Some ''r1'', inviteeEmail = Some ''c@x.com''\<rparr> db_r1
     = Inr (\<lparr>matchedCount = 1, modifiedCount = 1, upsertedCount = 0, upsertedId = None\<rparr>,
            db_r1_shared)
   \<and> (\<exists>r2. board_invite \<lparr>roomId = Some ''r1'', inviteeEmail = Some ''c@x.com''\<rparr> db_r1_shared
              = Inr (r2, db_r1_shared)
            \<and> modifiedCount r2 = 0)
   \<and> board_get ''r1'' db_r1 = Some board_r1
   \<and> map_of board_r1 ''collaborators'' = Some (BArr [])
   \<and> (\<exists>d1. board_get ''r1'' db_r1_shared = Some d1
            \<and> map_of d1 ''collaborators'' = Some (BArr [BStr ''c@x.com'']))"
proof -
  note t = invite_twice_idempotent [OF invite_db_r1]
  have a: "\<exists>r2. board_invite \<lparr>roomId = Some ''r1'', inviteeEmail = Some ''c@x.com''\<rparr> db_r1_shared
              = Inr (r2, db_r1_shared)
            \<and> modifiedCount r2 = 0"
    by (rule t [THEN conjunct1])
  have "\<exists>d1. board_get ''r1'' db_r1_shared = Some d1
            \<and> map_of d1 ''collaborators''
                = Some (BArr (if ser_string (Some ''c@x.com'') \<in> set []
                              then [] else [] @ [ser_string (Some ''c@x.com'')]))"
    using t [THEN conjunct2, rule_format, of board_r1 "[]"] get_db_r1 collaborators_r1
    by blast
  then have b: "\<exists>d1. board_get ''r1'' db_r1_shared = Some d1
            \<and> map_of d1 ''collaborators'' = Some (BArr [BStr ''c@x.com''])"
    by simp
  from invite_db_r1 a get_db_r1 collaborators_r1 b show ?thesis
    by (intro conjI)
qed

section \<open>Deleting a board\<close>

text \<open>
  Claim C6. In every store that a sequence of save, invite and delete requests
  builds from the empty collection, a delete never fails: it reports one removed
  record when the board existed and zero when it did not, in which case the store
  is unchanged; after the call no record has that room identifier, and a second
  delete reports zero and changes nothing.
\<close>

theorem delete_idempotent:
  "\<exists>res s'. board_delete R (run reqs empty_db) = (res, s')
      \<and> board_get R s' = None
      \<and> deletedCount res = (if board_get R (run reqs empty_db) = None then 0 else 1)
      \<and> (board_get R (run reqs empty_db) = None \<longrightarrow> s' = run reqs empty_db)
      \<and> board_delete R s' = (\<lparr>deletedCount = 0\<rparr>, s')"
proof -
  let ?s = "run reqs empty_db"
  let ?p = "matches [(''roomId'', BStr R)]"
  have wf: "wf_boards (boards ?s)" by (rule wf_reachable)
  show ?thesis
  proof (cases "board_get R ?s")
    case None
    then have "board_delete R ?s = (\<lparr>deletedCount = 0\<rparr>, ?s)"
      by (simp add: board_delete_def deleteOne_def board_get_def)
    with None show ?thesis by simp
  next
    case (Some d)
    let ?s' = "?s\<lparr>boards := remove_first ?p (boards ?s)\<rparr>"
    from Some have d: "board_delete R ?s = (\<lparr>deletedCount = 1\<rparr>, ?s')"
      by (simp add: board_delete_def deleteOne_def board_get_def)
    have "List.find ?p (remove_first ?p (boards ?s)) = None"
      using wf by (simp add: wf_boards_def find_remove_first_unique)
    then have g: "board_get R ?s' = None"
      by (simp add: board_get_def findOne_def)
    then have d2: "board_delete R ?s' = (\<lparr>deletedCount = 0\<rparr>, ?s')"
      by (simp add: board_delete_def deleteOne_def board_get_def)
    from Some d g d2 show ?thesis by simp
  qed
qed

theorem delete_idempotent_witness:
  "board_get ''r2'' (run [Save 1 ''r1'' \<lparr>name = Some ''Untitled'', elements = Some [],
                        userEmail = Some ''a@x.com''\<rparr>] empty_db) = None
   \<and> (\<exists>res. board_delete ''r2'' (run [Save 1 ''r1'' \<lparr>name = Some ''Untitled'', elements = Some [],
                        userEmail = Some ''a@x.com''\<rparr>] empty_db)
              = (res, run [Save 1 ''r1'' \<lparr>name = Some ''Untitled'', elements = Some [],
                        userEmail = Some ''a@x.com''\<rparr>] empty_db)
            \<and> deletedCount res = 0)"
proof -
  let ?reqs = "[Save 1 ''r1'' \<lparr>name = Some ''Untitled'', elements = Some [],
                        userEmail = Some ''a@x.com''\<rparr>]"
  have h: "board_get ''r2'' (run ?reqs empty_db) = None"
    unfolding run_r1
    by (simp add: board_get_def findOne_def db_r1_def board_r1_def matches_def field_matches_def)
  from delete_idempotent [of "''r2''" ?reqs] obtain res s' where
    d: "board_delete ''r2'' (run ?reqs empty_db) = (res, s')"
    and c: "deletedCount res = (if board_get ''r2'' (run ?reqs empty_db) = None then 0 else 1)"
    and e: "board_get ''r2'' (run ?reqs empty_db) = None \<longrightarrow> s' = run ?reqs empty_db"
    by (elim exE conjE)
  from e h have "s' = run ?reqs empty_db" by (rule mp)
  with d have d': "board_delete ''r2'' (run ?reqs empty_db) = (res, run ?reqs empty_db)"
    by (simp only:)
  from c h have "deletedCount res = 0" by simp
  with d' have "\<exists>res. board_delete ''r2'' (run ?reqs empty_db) = (res, run ?reqs empty_db)
            \<and> deletedCount res = 0"
    by blast
  with h show ?thesis by (rule conjI)
qed

section \<open>Requests with missing fields\<close>

text \<open>
  Claim C7 says that a save or invite request with a missing required field is
  rejected before the store is touched, so that the store is unchanged. The two
  handlers check nothing, unlike the handlers of \<^verbatim>\<open>/generate\<close> and
  \<^verbatim>\<open>/chatbot/generate\<close> in the same file, which answer 400 to a body without
  \<^verbatim>\<open>prompt\<close>. A save whose body has no name, no elements and no userEmail,
  sent to the empty store, is passed to the store and creates a board with null
  in those fields and null as owner. An invite whose body has no inviteeEmail,
  sent to the store that holds board \<^verbatim>\<open>r1\<close>, adds null to the
  collaborators of that board.
\<close>

theorem requests_without_fields_reach_store:
  "board_save 1 ''r1'' \<lparr>name = None, elements = None, userEmail = None\<rparr> empty_db
     = Inr (\<lparr>matchedCount = 0, modifiedCount = 0, upsertedCount = 1, upsertedId = Some (BOid 0)\<rparr>,
            \<lparr>boards = [[(''_id'', BOid 0), (''roomId'', BStr ''r1''), (''name'', BNull),
                         (''elements'', BNull), (''lastModified'', BDate 1),
                         (''owner'', BNull), (''collaborators'', BArr [])]],
             next_oid = 1\<rparr>)
   \<and> handle (Save 1 ''r1'' \<lparr>name = None, elements = None, userEmail = None\<rparr>) empty_db
       \<noteq> empty_db
   \<and> board_invite \<lparr>roomId = Some ''r1'', inviteeEmail = None\<rparr> db_r1
     = Inr (\<lparr>matchedCount = 1, modifiedCount = 1, upsertedCount = 0, upsertedId = None\<rparr>,
            \<lparr>boards = [[(''_id'', BOid 0), (''roomId'', BStr ''r1''),
                         (''name'', BStr ''Untitled''), (''elements'', BArr []),
                         (''lastModified'', BDate 1), (''owner'', BStr ''a@x.com''),
                         (''collaborators'', BArr [BNull])]],
             next_oid = 1\<rparr>)
   \<and> handle (Invite \<lparr>roomId = Some ''r1'', inviteeEmail = None\<rparr>) db_r1 \<noteq> db_r1"
proof (intro conjI)
  show "board_save 1 ''r1'' \<lparr>name = None, elements = None, userEmail = None\<rparr> empty_db
     = Inr (\<lparr>matchedCount = 0, modifiedCount = 0, upsertedCount = 1, upsertedId = Some (BOid 0)\<rparr>,
            \<lparr>boards = [[(''_id'', BOid 0), (''roomId'', BStr ''r1''), (''name'', BNull),
                         (''elements'', BNull), (''lastModified'', BDate 1),
                         (''owner'', BNull), (''collaborators'', BArr [])]],
             next_oid = 1\<rparr>)"
    by (simp add: board_save_def updateOne_def findOne_def apply_insert_def empty_db_def)
next
  show "handle (Save 1 ''r1'' \<lparr>name = None, elements = None, userEmail = None\<rparr>) empty_db
       \<noteq> empty_db"
    by (simp add: board_save_def updateOne_def findOne_def apply_insert_def empty_db_def)
next
  show "board_invite \<lparr>roomId = Some ''r1'', inviteeEmail = None\<rparr> db_r1
     = Inr (\<lparr>matchedCount = 1, modifiedCount = 1, upsertedCount = 0, upsertedId = None\<rparr>,
            \<lparr>boards = [[(''_id'', BOid 0), (''roomId'', BStr ''r1''),
                         (''name'', BStr ''Untitled''), (''elements'', BArr []),
                         (''lastModified'', BDate 1), (''owner'', BStr ''a@x.com''),
                         (''collaborators'', BArr [BNull])]],
             next_oid = 1\<rparr>)"
    by (simp add: board_invite_def updateOne_def findOne_def apply_update_def
          db_r1_def board_r1_def matches_def field_matches_def)
next
  show "handle (Invite \<lparr>roomId = Some ''r1'', inviteeEmail = None\<rparr>) db_r1 \<noteq> db_r1"
    by (simp add: board_invite_def updateOne_def findOne_def apply_update_def
          db_r1_def board_r1_def matches_def field_matches_def)
qed

section \<open>Owner and existence\<close>

text \<open>
  Claim C8 says that in every store that a sequence of save, invite and delete
  requests builds, a board has its owner set exactly when a save was performed
  for its room, the owner being the identity of the creator. The store built by
  one save whose body carries a name and elements but no userEmail holds a board
  for which a save was performed and whose owner is null, not an identity: the
  handler passes the missing userEmail to the insert-only fields without a
  check. (Lemma \<open>owner_is_requester\<close> shows that the owner is an identity when
  every save of the sequence carries userEmail, and \<open>never_saved_absent\<close> that
  a room never saved has no record.)
\<close>

theorem saved_board_with_null_owner:
  "saved ''r1'' [Save 1 ''r1'' \<lparr>name = Some ''Untitled'', elements = Some [],
                               userEmail = None\<rparr>]
   \<and> board_get ''r1'' (run [Save 1 ''r1'' \<lparr>name = Some ''Untitled'', elements = Some [],
                                          userEmail = None\<rparr>] empty_db)
       = Some [(''_id'', BOid 0), (''roomId'', BStr ''r1''), (''name'', BStr ''Untitled''),
               (''elements'', BArr []), (''lastModified'', BDate 1),
               (''owner'', BNull), (''collaborators'', BArr [])]
   \<and> map_of [(''_id'', BOid 0), (''roomId'', BStr ''r1''), (''name'', BStr ''Untitled''),
              (''elements'', BArr []), (''lastModified'', BDate 1),
              (''owner'', BNull), (''collaborators'', BArr [])] ''owner'' = Some BNull"
proof (intro conjI)
  show "saved ''r1'' [Save 1 ''r1'' \<lparr>name = Some ''Untitled'', elements = Some [],
                               userEmail = None\<rparr>]"
    by (simp add: saved_def)
next
  have "run [Save 1 ''r1'' \<lparr>name = Some ''Untitled'', elements = Some [],
                            userEmail = None\<rparr>] empty_db
          = \<lparr>boards = [[(''_id'', BOid 0), (''roomId'', BStr ''r1''),
                        (''name'', BStr ''Untitled''), (''elements'', BArr []),
                        (''lastModified'', BDate 1), (''owner'', BNull),
                        (''collaborators'', BArr [])]],
             next_oid = 1\<rparr>"
    by (simp add: run_def board_save_def updateOne_def findOne_def apply_insert_def
          empty_db_def)
  then show "board_get ''r1'' (run [Save 1 ''r1'' \<lparr>name = Some ''Untitled'', elements = Some [],
                                          userEmail = None\<rparr>] empty_db)
       = Some [(''_id'', BOid 0), (''roomId'', BStr ''r1''), (''name'', BStr ''Untitled''),
               (''elements'', BArr []), (''lastModified'', BDate 1),
               (''owner'', BNull), (''collaborators'', BArr [])]"
    by (simp add: board_get_def findOne_def matches_def field_matches_def)
next
  show "map_of [(''_id'', BOid 0), (''roomId'', BStr ''r1''), (''name'', BStr ''Untitled''),
              (''elements'', BArr []), (''lastModified'', BDate 1),
              (''owner'', BNull), (''collaborators'', BArr [])] ''owner'' = Some BNull"
    by simp
qed

section \<open>Who receives a drawing update\<close>

text \<open>
  Claim C3. In every session state, when a sender emits a drawing update for a
  room, the elements are appended, as a receive-drawing event, to the inbox of
  exactly the connections that are members of the room at that moment and are
  not the sender; every other inbox, the sender's among them, is unchanged. A
  connection that was not a member and joins the room afterwards, whatever
  joins and disconnects follow, has the inbox it had before the update.
\<close>

theorem drawing_update_fanout:
  "inbox (on_drawing_update s R p st) c
     = (if c \<in> membersOf R st - {s} then inbox st c @ [ReceiveDrawing p] else inbox st c)
   \<and> inbox (on_drawing_update s R p st) s = inbox st s
   \<and> (c \<notin> membersOf R st \<and> list_all membership_only later \<longrightarrow>
        inbox (session (JoinRoom c R # later) (on_drawing_update s R p st)) c = inbox st c)"
proof (intro conjI impI)
  show "inbox (on_drawing_update s R p st) c
     = (if c \<in> membersOf R st - {s} then inbox st c @ [ReceiveDrawing p] else inbox st c)"
    by (simp add: on_drawing_update_def relay_def)
next
  show "inbox (on_drawing_update s R p st) s = inbox st s"
    by (simp add: on_drawing_update_def relay_def)
next
  assume a: "c \<notin> membersOf R st \<and> list_all membership_only later"
  then have "list_all membership_only (JoinRoom c R # later)" by simp
  then have "inbox (session (JoinRoom c R # later) (on_drawing_update s R p st))
               = inbox (on_drawing_update s R p st)"
    by (rule session_membership_inbox)
  moreover from a have "inbox (on_drawing_update s R p st) c = inbox st c"
    by (simp add: on_drawing_update_def relay_def)
  ultimately show "inbox (session (JoinRoom c R # later) (on_drawing_update s R p st)) c
                     = inbox st c"
    by simp
qed

theorem drawing_update_fanout_witness:
  "inbox (on_drawing_update ''A'' ''r1'' (Some (BArr [BStr ''shape1''])) room_r1) ''B''
     = [ReceiveDrawing (Some (BArr [BStr ''shape1'']))]
   \<and> inbox (on_drawing_update ''A'' ''r1'' (Some (BArr [BStr ''shape1''])) room_r1) ''A'' = []
   \<and> ''C'' \<notin> membersOf ''r1'' room_r1
   \<and> list_all membership_only [Disconnect ''B'']
   \<and> inbox (session [JoinRoom ''C'' ''r1'', Disconnect ''B'']
               (on_drawing_update ''A'' ''r1'' (Some (BArr [BStr ''shape1''])) room_r1)) ''C'' = []"
proof -
  let ?p = "Some (BArr [BStr ''shape1''])"
  have mB: "''B'' \<in> membersOf ''r1'' room_r1 - {''A''}"
    by (simp add: room_r1_def on_join_room_def join_def membersOf_def)
  have nC: "''C'' \<notin> membersOf ''r1'' room_r1"
    by (simp add: room_r1_def on_join_room_def join_def membersOf_def empty_io_def)
  have l: "list_all membership_only [Disconnect ''B'']"
    by simp
  have i0: "inbox room_r1 ''A'' = []" "inbox room_r1 ''B'' = []" "inbox room_r1 ''C'' = []"
    by (simp_all add: room_r1_def on_join_room_def join_def empty_io_def)
  from drawing_update_fanout [of "''A''" "''r1''" ?p room_r1 "''B''", THEN conjunct1] mB i0
  have b: "inbox (on_drawing_update ''A'' ''r1'' ?p room_r1) ''B'' = [ReceiveDrawing ?p]"
    by simp
  from drawing_update_fanout [of "''A''" "''r1''" ?p room_r1 "''B''", THEN conjunct2, THEN conjunct1] i0
  have a: "inbox (on_drawing_update ''A'' ''r1'' ?p room_r1) ''A'' = []"
    by simp
  from nC l have "''C'' \<notin> membersOf ''r1'' room_r1 \<and> list_all membership_only [Disconnect ''B'']"
    by (rule conjI)
  with drawing_update_fanout [of "''A''" "''r1''" ?p room_r1 "''C''" "[Disconnect ''B'']",
         THEN conjunct2, THEN conjunct2]
  have "inbox (session [JoinRoom ''C'' ''r1'', Disconnect ''B''] (on_drawing_update ''A'' ''r1'' ?p room_r1)) ''C''
            = inbox room_r1 ''C''"
    by (rule mp)
  with i0 have c: "inbox (session [JoinRoom ''C'' ''r1'', Disconnect ''B''] (on_drawing_update ''A'' ''r1'' ?p room_r1)) ''C'' = []"
    by simp
  from b a nC l c show ?thesis by (intro conjI)
qed

section \<open>Joining and leaving\<close>

text \<open>
  Claim C4. After the join of a connection to a room the connection is a member
  of the room. After its transport has closed it is a member of no room.
  Removing a connection that is a member of no room changes nothing.
\<close>

theorem join_then_close:
  "c \<in> membersOf R (on_join_room c R st)
   \<and> (\<forall>R'. c \<notin> membersOf R' (on_disconnect c st))
   \<and> ((\<forall>R'. c \<notin> membersOf R' st) \<longrightarrow> on_disconnect c st = st)"
proof (intro conjI allI impI)
  show "c \<in> membersOf R (on_join_room c R st)"
    by (simp add: on_join_room_def join_def membersOf_def)
next
  fix R' show "c \<notin> membersOf R' (on_disconnect c st)"
    by (simp add: on_disconnect_def remove_def membersOf_def)
next
  assume "\<forall>R'. c \<notin> membersOf R' st"
  then have "(\<lambda>R. members st R - {c}) = members st"
    by (auto simp: membersOf_def fun_eq_iff)
  then show "on_disconnect c st = st"
    by (simp add: on_disconnect_def remove_def)
qed

theorem join_then_close_witness:
  "(\<forall>R'. ''A'' \<notin> membersOf R' empty_io) \<and> on_disconnect ''A'' empty_io = empty_io"
proof -
  have h: "\<forall>R'. ''A'' \<notin> membersOf R' empty_io"
    by (simp add: membersOf_def empty_io_def)
  from join_then_close [of "''A''" "''r1''" empty_io, THEN conjunct2, THEN conjunct2] h
  have "on_disconnect ''A'' empty_io = empty_io" by (rule mp)
  with h show ?thesis by (rule conjI)
qed

end
